theory Spec2Isabelle
  imports Complex_Main
begin

section \<open>The diffusion simulation engine (simulation.js)\<close>

text \<open>
  A shallow embedding of the class \<open>DiffusionSim\<close>. JavaScript numbers are modelled
  as HOL reals (no rounding, no NaN); \<open>caseNum\<close> is an integer compared with \<open>===\<close>;
  \<open>numAtoms\<close> is a particle count, a natural number. The buffer \<open>atoms\<close> is a
  \<open>Float32Array\<close>: its length never changes, a write outside it is dropped and a read
  outside it gives \<open>undefined\<close>, whose comparisons are all false. The calls of
  \<open>Math.random()\<close> are modelled by a sequence \<open>rnd\<close> of reals and a counter \<open>k\<close> of
  the draws made so far: the next call returns \<open>rnd k\<close>.
\<close>

subsection \<open>Math utilities\<close>

definition erfc :: "real \<Rightarrow> real" where
  "erfc x =
     (let ax = \<bar>x\<bar>;
          t = 1 / (1 + 0.3275911 * ax);
          poly = t * (0.254829592 + t * (- 0.284496736 + t * (1.421413741
                   + t * (- 1.453152027 + t * 1.061405429))));
          r = poly * exp (- ax * ax)
      in if x \<ge> 0 then r else 2 - r)"

subsection \<open>Constants\<close>

definition DOMAIN_LENGTH :: real where "DOMAIN_LENGTH = 100"
definition VISIBLE_LENGTH :: real where "VISIBLE_LENGTH = 10"
definition DOMAIN_WIDTH :: real where "DOMAIN_WIDTH = 4"
definition NUM_BINS :: nat where "NUM_BINS = 40"
definition MAX_ATOMS :: nat where "MAX_ATOMS = 5000"

subsection \<open>The state of the engine\<close>

record sim =
  caseNum :: int
  gamma :: real
  lambda :: real
  numAtoms :: nat
  time :: real
  running :: bool
  speed :: real
  atoms :: "real list"

type_synonym rnd = "nat \<Rightarrow> real"

text \<open>
  The errors the specification names. No method of the source has a \<open>throw\<close>, so the
  methods below that return a result return \<open>Inr\<close> on every path.
\<close>

datatype error = InvalidCase | CapacityExceeded

text \<open>The getters: computed from the fields at every access.\<close>

definition D :: "sim \<Rightarrow> real" where
  "D s = gamma s * lambda s * lambda s / 6"

definition domainMin :: "sim \<Rightarrow> real" where
  "domainMin s = (if caseNum s = 2 then - DOMAIN_LENGTH / 2 else 0)"

definition domainMax :: "sim \<Rightarrow> real" where
  "domainMax s = (if caseNum s = 2 then DOMAIN_LENGTH / 2 else DOMAIN_LENGTH)"

definition visibleMin :: "sim \<Rightarrow> real" where
  "visibleMin s = (if caseNum s = 2 then - VISIBLE_LENGTH / 2 else 0)"

definition visibleMax :: "sim \<Rightarrow> real" where
  "visibleMax s = (if caseNum s = 2 then VISIBLE_LENGTH / 2 else VISIBLE_LENGTH)"

subsection \<open>reset, setCase, setNumAtoms\<close>

text \<open>
  One round of the seeding loop, for slot \<open>i\<close>: three stores and two draws.
  \<open>a[j := v]\<close> leaves \<open>a\<close> as it is when \<open>j\<close> is outside it, as the typed array does.
\<close>

definition seedAtom :: "rnd \<Rightarrow> nat \<Rightarrow> real list \<times> nat \<Rightarrow> real list \<times> nat" where
  "seedAtom r i = (\<lambda>(a, k).
     (a[i * 3 := 0,
        i * 3 + 1 := (r k - 0.5) * DOMAIN_WIDTH,
        i * 3 + 2 := (r (k + 1) - 0.5) * DOMAIN_WIDTH], k + 2))"

definition reset :: "sim \<Rightarrow> rnd \<Rightarrow> nat \<Rightarrow> sim \<times> nat" where
  "reset s r k =
     (let (a, k') = fold (seedAtom r) [0..<numAtoms s] (atoms s, k)
      in (s\<lparr>time := 0, atoms := a\<rparr>, k'))"

definition setCase :: "sim \<Rightarrow> int \<Rightarrow> rnd \<Rightarrow> nat \<Rightarrow> error + sim \<times> nat" where
  "setCase s n r k = Inr (reset (s\<lparr>caseNum := n\<rparr>) r k)"

definition setNumAtoms :: "sim \<Rightarrow> nat \<Rightarrow> rnd \<Rightarrow> nat \<Rightarrow> error + sim \<times> nat" where
  "setNumAtoms s n r k =
     (let old = numAtoms s;
          s1 = s\<lparr>numAtoms := n\<rparr>
      in if n > old then
           (let (a, k') = fold (seedAtom r) [old..<n] (atoms s1, k)
            in Inr (s1\<lparr>atoms := a\<rparr>, k'))
         else Inr (s1, k))"

text \<open>The constructor: the fields, a zeroed buffer of \<open>MAX_ATOMS * 3\<close> floats, then \<open>reset\<close>.\<close>

definition fields0 :: sim where
  "fields0 = \<lparr>caseNum = 1, gamma = 20, lambda = 0.50, numAtoms = 2000, time = 0,
              running = False, speed = 1.0, atoms = replicate (MAX_ATOMS * 3) 0\<rparr>"

definition newSim :: "rnd \<Rightarrow> nat \<Rightarrow> sim \<times> nat" where
  "newSim r k = reset fields0 r k"

subsection \<open>step\<close>

text \<open>
  A read-modify-write of one element of the buffer. Outside the buffer the read is
  \<open>undefined\<close> and the store is dropped: the buffer stays as it is.
\<close>

definition upd :: "real list \<Rightarrow> nat \<Rightarrow> (real \<Rightarrow> real) \<Rightarrow> real list" where
  "upd a j f = (if j < length a then a[j := f (a ! j)] else a)"

text \<open>The correction of \<open>x\<close> after a jump (two \<open>if\<close>s in sequence in each case).\<close>

definition boundaryX :: "int \<Rightarrow> real \<Rightarrow> real \<Rightarrow> real \<Rightarrow> real" where
  "boundaryX c xMin xMax x0 =
     (if c = 1 then
        (let x = (if x0 < 0 then 0 else x0) in if x > xMax then xMax else x)
      else if c = 2 then
        (let x = (if x0 < xMin then xMin else x0) in if x > xMax then xMax else x)
      else
        (let x = (if x0 < 0 then - x0 else x0) in if x > xMax then xMax else x))"

text \<open>The periodic correction of \<open>y\<close> and of \<open>z\<close>: an \<open>if\<close> and an \<open>else if\<close>.\<close>

definition wrapYZ :: "real \<Rightarrow> real" where
  "wrapYZ y =
     (let hw = DOMAIN_WIDTH / 2
      in if y < - hw then y + DOMAIN_WIDTH
         else if y > hw then y - DOMAIN_WIDTH
         else y)"

text \<open>
  The body of the inner loop once the particle jumps, in two parts. First the
  displacement is added to the three coordinates of slot \<open>i\<close>; \<open>u1\<close> and \<open>u2\<close> are
  the two draws that give \<open>cosT\<close> and \<open>phi\<close>.
\<close>

definition displace :: "sim \<Rightarrow> real list \<Rightarrow> nat \<Rightarrow> real \<Rightarrow> real \<Rightarrow> real list" where
  "displace s a i u1 u2 =
     (let lam = lambda s;
          idx = i * 3;
          cosT = 2 * u1 - 1;
          sinT = sqrt (1 - cosT * cosT);
          phi = 6.283185307 * u2;
          a1 = upd a idx (\<lambda>v. v + lam * sinT * cos phi);
          a2 = upd a1 (idx + 1) (\<lambda>v. v + lam * sinT * sin phi);
          a3 = upd a2 (idx + 2) (\<lambda>v. v + lam * cosT)
      in a3)"

text \<open>
  Then the raw coordinates are read back, corrected and stored: \<open>x\<close> by the rule of
  the case, \<open>y\<close> and \<open>z\<close> by the periodic rule.
\<close>

definition correct :: "sim \<Rightarrow> real list \<Rightarrow> nat \<Rightarrow> real list" where
  "correct s a i =
     (let idx = i * 3;
          a4 = upd a idx (boundaryX (caseNum s) (domainMin s) (domainMax s));
          a5 = upd a4 (idx + 1) wrapYZ;
          a6 = upd a5 (idx + 2) wrapYZ
      in a6)"

definition jump :: "sim \<Rightarrow> real list \<Rightarrow> nat \<Rightarrow> real \<Rightarrow> real \<Rightarrow> real list" where
  "jump s a i u1 u2 = correct s (displace s a i u1 u2) i"

text \<open>One round of the inner loop: the draw against \<open>p\<close>, then the jump and its two draws.\<close>

definition atomStep :: "sim \<Rightarrow> rnd \<Rightarrow> real \<Rightarrow> nat \<Rightarrow> real list \<times> nat \<Rightarrow> real list \<times> nat" where
  "atomStep s r p i = (\<lambda>(a, k).
     if r k \<ge> p then (a, k + 1)
     else (jump s a i (r (k + 1)) (r (k + 2)), k + 3))"

text \<open>One round of the outer loop.\<close>

definition subStep :: "sim \<Rightarrow> rnd \<Rightarrow> real \<Rightarrow> real list \<times> nat \<Rightarrow> real list \<times> nat" where
  "subStep s r subDt ak =
     (let p = gamma s * subDt
      in fold (atomStep s r p) [0..<numAtoms s] ak)"

definition step :: "sim \<Rightarrow> real \<Rightarrow> rnd \<Rightarrow> nat \<Rightarrow> sim \<times> nat" where
  "step s dt r k =
     (if \<not> running s then (s, k)
      else
        (let simDt = dt * speed s;
             subSteps = max 1 (\<lceil>gamma s * simDt\<rceil>);
             subDt = simDt / of_int subSteps;
             (a, k') = fold (\<lambda>_. subStep s r subDt) [0..<nat subSteps] (atoms s, k)
         in (s\<lparr>atoms := a, time := time s + simDt\<rparr>, k')))"

subsection \<open>getHistogram, countInView, analyticalAt\<close>

text \<open>
  \<open>bins[b]++\<close> on a \<open>Float32Array\<close> of counts: dropped when \<open>b\<close> is not an index of it.
\<close>

definition incr :: "nat list \<Rightarrow> int \<Rightarrow> nat list" where
  "incr bins b =
     (if 0 \<le> b \<and> nat b < length bins then bins[nat b := bins ! nat b + 1] else bins)"

text \<open>
  One round of the binning loop. For a slot outside the buffer \<open>x\<close> is \<open>undefined\<close>:
  both comparisons are false, the bin index is \<open>NaN\<close> and the increment is dropped.
\<close>

definition binAtom :: "sim \<Rightarrow> nat \<Rightarrow> nat list \<Rightarrow> nat list" where
  "binAtom s i bins =
     (let lo = visibleMin s;
          hi = visibleMax s;
          binW = (hi - lo) / real NUM_BINS
      in if i * 3 < length (atoms s) then
           (let x = atoms s ! (i * 3)
            in if x < lo \<or> x \<ge> hi then bins
               else incr bins (min \<lfloor>(x - lo) / binW\<rfloor> (int NUM_BINS - 1)))
         else bins)"

definition getHistogram :: "sim \<Rightarrow> nat list" where
  "getHistogram s = fold (binAtom s) [0..<numAtoms s] (replicate NUM_BINS 0)"

definition viewAtom :: "sim \<Rightarrow> nat \<Rightarrow> nat \<Rightarrow> nat" where
  "viewAtom s i c =
     (if i * 3 < length (atoms s) \<and> atoms s ! (i * 3) \<ge> visibleMin s
         \<and> atoms s ! (i * 3) \<le> visibleMax s
      then c + 1 else c)"

definition countInView :: "sim \<Rightarrow> nat" where
  "countInView s = fold (viewAtom s) [0..<numAtoms s] 0"

definition analyticalAt :: "sim \<Rightarrow> real \<Rightarrow> real" where
  "analyticalAt s x =
     (let Dt = D s * time s
      in if caseNum s = 1 then
           (if Dt < 1 / 10 ^ 9 then (if x < 0.01 then 1 else 0)
            else erfc (x / (2 * sqrt Dt)))
         else if Dt < 1 / 10 ^ 9 then 0
         else
           (let gauss = exp (- (x * x) / (4 * Dt));
                pre = (if caseNum s = 2 then 1 / (2 * sqrt (pi * Dt))
                       else 1 / sqrt (pi * Dt))
            in pre * gauss))"

subsection \<open>Inputs and predicates used by the properties\<close>

text \<open>A random source whose every draw is \<open>1 / 2\<close>.\<close>

definition coin :: rnd where
  "coin k = 1 / 2"

text \<open>The engine as constructed, after one press of Play.\<close>

definition runningSim :: sim where
  "runningSim = (fst (newSim coin 0))\<lparr>running := True\<rparr>"

text \<open>
  Slot \<open>i\<close> is counted by \<open>getHistogram\<close>: it lies in the buffer and its \<open>x\<close> is in
  \<open>[visibleMin, visibleMax)\<close>, the test of the binning loop that does not \<open>continue\<close>.
\<close>

definition binned :: "sim \<Rightarrow> nat \<Rightarrow> bool" where
  "binned s i =
     (i * 3 < length (atoms s) \<and> visibleMin s \<le> atoms s ! (i * 3)
      \<and> atoms s ! (i * 3) < visibleMax s)"

section \<open>Properties\<close>

subsection \<open>reset and the constructor\<close>

lemma reset_caseNum: "caseNum (fst (reset s r k)) = caseNum s"
  and reset_gamma: "gamma (fst (reset s r k)) = gamma s"
  and reset_lambda: "lambda (fst (reset s r k)) = lambda s"
  and reset_numAtoms: "numAtoms (fst (reset s r k)) = numAtoms s"
  and reset_time: "time (fst (reset s r k)) = 0"
  and reset_running: "running (fst (reset s r k)) = running s"
  and reset_speed: "speed (fst (reset s r k)) = speed s"
  by (simp_all add: reset_def split: prod.splits)

lemma seedAtom_length: "length (fst (seedAtom r i ak)) = length (fst ak)"
  by (simp add: seedAtom_def split: prod.splits)

lemma seedLoop_length: "length (fst (fold (seedAtom r) is ak)) = length (fst ak)"
  by (induction "is" arbitrary: ak) (simp_all add: seedAtom_length)

lemma reset_length: "length (atoms (fst (reset s r k))) = length (atoms s)"
proof -
  obtain a k' where f: "fold (seedAtom r) [0..<numAtoms s] (atoms s, k) = (a, k')"
    by (cases "fold (seedAtom r) [0..<numAtoms s] (atoms s, k)")
  have "length a = length (atoms s)"
    using seedLoop_length [of r "[0..<numAtoms s]" "(atoms s, k)"] f by simp
  then show ?thesis using f by (simp add: reset_def)
qed

lemma newSim_fields:
  "caseNum (fst (newSim r k)) = 1" "gamma (fst (newSim r k)) = 20"
  "lambda (fst (newSim r k)) = 1 / 2" "numAtoms (fst (newSim r k)) = 2000"
  "time (fst (newSim r k)) = 0" "running (fst (newSim r k)) = False"
  "speed (fst (newSim r k)) = 1" "length (atoms (fst (newSim r k))) = MAX_ATOMS * 3"
  by (simp_all add: newSim_def reset_caseNum reset_gamma reset_lambda reset_numAtoms
      reset_time reset_running reset_speed reset_length fields0_def)

lemma runningSim_fields:
  "caseNum runningSim = 1" "gamma runningSim = 20" "lambda runningSim = 1 / 2"
  "numAtoms runningSim = 2000" "time runningSim = 0" "running runningSim"
  "speed runningSim = 1"
  by (simp_all add: runningSim_def newSim_fields)

lemma coin_nonneg: "\<forall>j. 0 \<le> coin j"
  by (simp add: coin_def)

text \<open>
  Slots are three apart: a store to the \<open>y\<close> or \<open>z\<close> of one slot never hits the \<open>x\<close> of
  another.
\<close>

lemma slot_apart: "Suc (j * 3) \<noteq> i * 3" "Suc (Suc (j * 3)) \<noteq> i * 3"
  by presburger+

lemma seedAtom_x0_keep:
  "i * 3 < length a \<Longrightarrow> a ! (i * 3) = 0 \<Longrightarrow> fst (seedAtom r j (a, k)) ! (i * 3) = 0"
  by (cases "j = i") (simp_all add: seedAtom_def slot_apart)

lemma seedAtom_x0:
  "i * 3 < length a \<Longrightarrow> fst (seedAtom r i (a, k)) ! (i * 3) = 0"
  by (simp add: seedAtom_def nth_list_update slot_apart)

lemma seedLoop_x0_keep:
  "i * 3 < length a \<Longrightarrow> a ! (i * 3) = 0 \<Longrightarrow> fst (fold (seedAtom r) is (a, k)) ! (i * 3) = 0"
proof (induction "is" arbitrary: a k)
  case Nil
  then show ?case by simp
next
  case (Cons j js)
  obtain a' k' where s: "seedAtom r j (a, k) = (a', k')" by (cases "seedAtom r j (a, k)")
  have l: "i * 3 < length a'"
    using seedAtom_length [of r j "(a, k)"] s Cons.prems(1) by simp
  have z: "a' ! (i * 3) = 0"
    using seedAtom_x0_keep [OF Cons.prems, of r j k] s by simp
  show ?case using Cons.IH [OF l z] s by simp
qed

lemma seedLoop_x0:
  "i \<in> set is \<Longrightarrow> i * 3 < length a \<Longrightarrow> fst (fold (seedAtom r) is (a, k)) ! (i * 3) = 0"
proof (induction "is" arbitrary: a k)
  case Nil
  then show ?case by simp
next
  case (Cons j js)
  obtain a' k' where s: "seedAtom r j (a, k) = (a', k')" by (cases "seedAtom r j (a, k)")
  have l: "i * 3 < length a'"
    using seedAtom_length [of r j "(a, k)"] s Cons.prems(2) by simp
  show ?case
  proof (cases "i = j")
    case True
    then have "a' ! (i * 3) = 0"
      using seedAtom_x0 [OF Cons.prems(2), of r k] s by simp
    then show ?thesis using seedLoop_x0_keep [OF l] s by simp
  next
    case False
    with Cons.prems(1) have "i \<in> set js" by simp
    then show ?thesis using Cons.IH [OF _ l] s by simp
  qed
qed

lemma seedAtom_low:
  "old \<le> j \<Longrightarrow> m < old * 3 \<Longrightarrow> fst (seedAtom r j (a, k)) ! m = a ! m"
  by (simp add: seedAtom_def)

lemma seedLoop_low:
  "\<forall>j \<in> set is. old \<le> j \<Longrightarrow> m < old * 3 \<Longrightarrow>
   fst (fold (seedAtom r) is (a, k)) ! m = a ! m"
proof (induction "is" arbitrary: a k)
  case Nil
  then show ?case by simp
next
  case (Cons j js)
  obtain a' k' where s: "seedAtom r j (a, k) = (a', k')" by (cases "seedAtom r j (a, k)")
  have "a' ! m = a ! m"
    using seedAtom_low [of old j m r a k] s Cons.prems by simp
  then show ?case using Cons.IH [of a' k'] Cons.prems s by simp
qed

lemma setCase_caseNum:
  "\<not> isl (setCase s n r k) \<and> caseNum (fst (projr (setCase s n r k))) = n"
  by (simp add: setCase_def reset_caseNum)

lemma setNumAtoms_numAtoms:
  "\<not> isl (setNumAtoms s n r k) \<and> numAtoms (fst (projr (setNumAtoms s n r k))) = n"
  by (simp add: setNumAtoms_def Let_def split: prod.splits)

subsection \<open>step when no particle can jump\<close>

text \<open>
  When \<open>p \<le> 0\<close> every draw of a source with values in \<open>[0, 1)\<close> is \<open>\<ge> p\<close>: each round
  of the inner loop is the \<open>continue\<close>.
\<close>

lemma atomStep_stay: "p \<le> 0 \<Longrightarrow> \<forall>j. 0 \<le> r j \<Longrightarrow> atomStep s r p i (a, k) = (a, k + 1)"
  by (simp add: atomStep_def order_trans)

lemma atomLoop_stay:
  "p \<le> 0 \<Longrightarrow> \<forall>j. 0 \<le> r j \<Longrightarrow> fold (atomStep s r p) is (a, k) = (a, k + length is)"
  by (induction "is" arbitrary: k) (simp_all add: atomStep_stay)

lemma subStep_stay:
  "gamma s * subDt \<le> 0 \<Longrightarrow> \<forall>j. 0 \<le> r j \<Longrightarrow> subStep s r subDt (a, k) = (a, k + numAtoms s)"
  by (simp add: subStep_def atomLoop_stay)

lemma step_stay:
  assumes "running s" "gamma s * (dt * speed s) \<le> 0" "\<forall>j. 0 \<le> r j"
  shows "step s dt r k = (s\<lparr>time := time s + dt * speed s\<rparr>, k + numAtoms s)"
proof -
  have c: "\<lceil>gamma s * (dt * speed s)\<rceil> \<le> 0"
    using assms(2) by (simp only: ceiling_le_zero)
  then have m: "max 1 \<lceil>gamma s * (dt * speed s)\<rceil> = 1" by simp
  have f: "subStep s r (dt * speed s) (atoms s, k) = (atoms s, k + numAtoms s)"
    using assms(2,3) by (rule subStep_stay)
  show ?thesis
    using assms(1) by (simp add: step_def m Let_def f)
qed

lemma step_time:
  "running s \<Longrightarrow> time (fst (step s dt r k)) = time s + dt * speed s"
  by (simp add: step_def Let_def split: prod.splits)

subsection \<open>The jump\<close>

lemma upd_length: "length (upd a j f) = length a"
  by (simp add: upd_def)

lemma displace_length: "length (displace s a i u1 u2) = length a"
  by (simp add: displace_def Let_def upd_length)

lemma displace_z:
  "i * 3 + 2 < length a \<Longrightarrow>
   displace s a i u1 u2 ! (i * 3 + 2) = a ! (i * 3 + 2) + lambda s * (2 * u1 - 1)"
  by (simp add: displace_def upd_def Let_def)


lemma correct_y:
  "i * 3 + 1 < length a \<Longrightarrow> correct s a i ! (i * 3 + 1) = wrapYZ (a ! (i * 3 + 1))"
  by (simp add: correct_def upd_def Let_def nth_list_update)

lemma correct_z:
  "i * 3 + 2 < length a \<Longrightarrow> correct s a i ! (i * 3 + 2) = wrapYZ (a ! (i * 3 + 2))"
  by (simp add: correct_def upd_def Let_def nth_list_update)


lemma displace_y:
  "i * 3 + 2 < length a \<Longrightarrow>
   displace s a i u1 u2 ! (i * 3 + 1) =
     a ! (i * 3 + 1)
     + lambda s * sqrt (1 - (2 * u1 - 1) * (2 * u1 - 1)) * sin (6.283185307 * u2)"
  by (simp add: displace_def upd_def Let_def)

text \<open>
  For draws in \<open>[0, 1]\<close> the displacement along each axis is at most \<open>|lambda|\<close>: a
  particle inside the box that jumps with \<open>|lambda| \<le> W\<close> is at most one width outside
  it, and the single shift of the periodic rule brings it back.
\<close>

lemma sinT_range:
  assumes "0 \<le> u1" "u1 \<le> 1"
  shows "0 \<le> sqrt (1 - (2 * u1 - 1) * (2 * u1 - 1))"
    and "sqrt (1 - (2 * u1 - 1) * (2 * u1 - 1)) \<le> 1"
proof -
  have "\<bar>2 * u1 - 1\<bar> \<le> 1" using assms by (simp add: abs_le_iff)
  then have "(2 * u1 - 1)\<^sup>2 \<le> 1" by (simp add: abs_square_le_1)
  then have c: "(2 * u1 - 1) * (2 * u1 - 1) \<le> 1" by (simp add: power2_eq_square)
  then show "0 \<le> sqrt (1 - (2 * u1 - 1) * (2 * u1 - 1))" by simp
  have "0 \<le> (2 * u1 - 1) * (2 * u1 - 1)" by simp
  then have "1 - (2 * u1 - 1) * (2 * u1 - 1) \<le> 1" by simp
  then show "sqrt (1 - (2 * u1 - 1) * (2 * u1 - 1)) \<le> 1"
    using real_sqrt_le_1_iff by blast
qed

lemma wrapYZ_near:
  "\<bar>y\<bar> \<le> 3 * DOMAIN_WIDTH / 2 \<Longrightarrow> \<bar>wrapYZ y\<bar> \<le> DOMAIN_WIDTH / 2"
  by (simp add: wrapYZ_def Let_def DOMAIN_WIDTH_def abs_le_iff)

lemma jump_stays_in_box:
  assumes "i * 3 + 2 < length a" "\<bar>lambda s\<bar> \<le> DOMAIN_WIDTH" "0 \<le> u1" "u1 \<le> 1"
    and "\<bar>a ! (i * 3 + 1)\<bar> \<le> DOMAIN_WIDTH / 2" "\<bar>a ! (i * 3 + 2)\<bar> \<le> DOMAIN_WIDTH / 2"
  shows "\<bar>jump s a i u1 u2 ! (i * 3 + 1)\<bar> \<le> DOMAIN_WIDTH / 2"
    and "\<bar>jump s a i u1 u2 ! (i * 3 + 2)\<bar> \<le> DOMAIN_WIDTH / 2"
proof -
  define sT where "sT = sqrt (1 - (2 * u1 - 1) * (2 * u1 - 1))"
  define sP where "sP = sin (6.283185307 * u2)"
  have l: "i * 3 + 2 < length (displace s a i u1 u2)" "i * 3 + 1 < length (displace s a i u1 u2)"
    using assms(1) by (simp_all add: displace_length)
  have s0: "0 \<le> sT" and s1: "sT \<le> 1"
    unfolding sT_def using sinT_range [OF assms(3,4)] by simp_all
  have p: "\<bar>sP\<bar> \<le> 1" unfolding sP_def by simp
  have "\<bar>sT * sP\<bar> \<le> 1 * 1"
    unfolding abs_mult using s0 s1 p by (intro mult_mono) simp_all
  then have "\<bar>lambda s\<bar> * \<bar>sT * sP\<bar> \<le> \<bar>lambda s\<bar> * 1"
    by (intro mult_left_mono) simp_all
  then have dy: "\<bar>lambda s * sT * sP\<bar> \<le> DOMAIN_WIDTH"
    using assms(2) by (simp add: abs_mult mult.assoc)
  have "\<bar>2 * u1 - 1\<bar> \<le> 1" using assms(3,4) by (simp add: abs_le_iff)
  then have "\<bar>lambda s\<bar> * \<bar>2 * u1 - 1\<bar> \<le> \<bar>lambda s\<bar> * 1"
    by (intro mult_left_mono) simp_all
  then have dz: "\<bar>lambda s * (2 * u1 - 1)\<bar> \<le> DOMAIN_WIDTH"
    using assms(2) by (simp add: abs_mult)
  have tri: "\<bar>y\<bar> \<le> DOMAIN_WIDTH / 2 \<Longrightarrow> \<bar>d\<bar> \<le> DOMAIN_WIDTH
             \<Longrightarrow> \<bar>y + d\<bar> \<le> 3 * DOMAIN_WIDTH / 2" for y d :: real
    by linarith
  have ry: "\<bar>displace s a i u1 u2 ! (i * 3 + 1)\<bar> \<le> 3 * DOMAIN_WIDTH / 2"
    unfolding displace_y [OF assms(1)] using tri [OF assms(5) dy] by (simp only: sT_def sP_def)
  have rz: "\<bar>displace s a i u1 u2 ! (i * 3 + 2)\<bar> \<le> 3 * DOMAIN_WIDTH / 2"
    unfolding displace_z [OF assms(1)] using tri [OF assms(6) dz] .
  show "\<bar>jump s a i u1 u2 ! (i * 3 + 1)\<bar> \<le> DOMAIN_WIDTH / 2"
    unfolding jump_def by (simp only: correct_y [OF l(2)] wrapYZ_near [OF ry])
  show "\<bar>jump s a i u1 u2 ! (i * 3 + 2)\<bar> \<le> DOMAIN_WIDTH / 2"
    unfolding jump_def by (simp only: correct_z [OF l(1)] wrapYZ_near [OF rz])
qed

subsection \<open>The histogram\<close>

lemma incr_length: "length (incr bins b) = length bins"
  by (simp add: incr_def)

lemma incr_sum:
  "0 \<le> b \<Longrightarrow> nat b < length bins \<Longrightarrow> sum_list (incr bins b) = sum_list bins + 1"
  by (simp add: incr_def sum_list_update)

lemma binAtom_length: "length (binAtom s i bins) = length bins"
  by (simp add: binAtom_def Let_def incr_length)

lemma binW_pos: "0 < (visibleMax s - visibleMin s) / real NUM_BINS"
  by (simp add: visibleMax_def visibleMin_def VISIBLE_LENGTH_def NUM_BINS_def)

lemma binAtom_sum:
  assumes "length bins = NUM_BINS"
  shows "sum_list (binAtom s i bins) = sum_list bins + (if binned s i then 1 else 0)"
proof (cases "binned s i")
  case False
  then show ?thesis
    by (auto simp add: binAtom_def binned_def Let_def)
next
  case True
  define q where
    "q = (atoms s ! (i * 3) - visibleMin s) / ((visibleMax s - visibleMin s) / real NUM_BINS)"
  define b where "b = min \<lfloor>q\<rfloor> (int NUM_BINS - 1)"
  from True have "0 \<le> atoms s ! (i * 3) - visibleMin s" by (simp add: binned_def)
  then have "0 \<le> q" unfolding q_def using binW_pos [of s] by (simp only: divide_nonneg_pos)
  then have b0: "0 \<le> b" by (simp add: b_def NUM_BINS_def)
  have b1: "nat b < length bins" using b0 by (simp add: b_def assms NUM_BINS_def)
  have "binAtom s i bins = incr bins b"
    using True by (simp add: binAtom_def binned_def Let_def b_def q_def not_less)
  with True show ?thesis by (simp add: incr_sum [OF b0 b1])
qed

lemma binLoop_length: "length (fold (binAtom s) is bins) = length bins"
  by (induction "is" arbitrary: bins) (simp_all add: binAtom_length)

lemma binLoop_sum:
  "length bins = NUM_BINS \<Longrightarrow>
   sum_list (fold (binAtom s) is bins) = sum_list bins + length (filter (binned s) is)"
  by (induction "is" arbitrary: bins) (simp_all add: binAtom_sum binAtom_length)

subsection \<open>The claims\<close>

text \<open>
  C1, as stated, fails. The engine as constructed, set running, and called with
  \<open>dt = -1\<close>: the elapsed time goes from \<open>0\<close> to \<open>-1\<close>. \<open>step\<close> has no test of the
  sign of \<open>dt\<close>; its last statement adds \<open>dt * speed\<close> to the time.
\<close>

theorem step_negative_dt_counterexample:
  "(- 1 :: real) \<le> 0 \<and> time runningSim = 0 \<and>
   time (fst (step runningSim (- 1) coin 0)) = - 1"
  by (simp add: step_time runningSim_fields)

text \<open>
  C1, amended. For every state with \<open>gamma \<ge> 0\<close> and \<open>speed \<ge> 0\<close>, every \<open>dt \<le> 0\<close>
  and every random source with values \<open>\<ge> 0\<close>, \<open>step dt\<close> leaves every particle
  position and every field but the time unchanged; the elapsed time becomes
  \<open>time + dt * speed\<close> when the engine is running (unchanged when \<open>dt = 0\<close>) and is
  unchanged when it is paused.
\<close>

theorem step_nonpositive_dt:
  assumes "dt \<le> 0" "0 \<le> gamma s" "0 \<le> speed s" "\<forall>j. 0 \<le> r j"
  shows "fst (step s dt r k) =
         s\<lparr>time := (if running s then time s + dt * speed s else time s)\<rparr>"
proof (cases "running s")
  case True
  have "gamma s * (dt * speed s) \<le> 0"
    using assms(1-3) by (simp add: mult_nonneg_nonpos mult_nonpos_nonneg)
  with True assms(4) show ?thesis by (simp add: step_stay)
next
  case False
  then show ?thesis by (simp add: step_def)
qed

theorem step_nonpositive_dt_witness:
  "(0 :: real) \<le> 0 \<and> 0 \<le> gamma runningSim \<and> 0 \<le> speed runningSim \<and> (\<forall>j. 0 \<le> coin j) \<and>
   fst (step runningSim 0 coin 0) = runningSim \<and>
   fst (step runningSim (- 1 / 20) coin 0) = runningSim\<lparr>time := - 1 / 20\<rparr>"
proof -
  have g: "0 \<le> gamma runningSim" and v: "0 \<le> speed runningSim"
    by (simp_all add: runningSim_fields)
  have "fst (step runningSim 0 coin 0) = runningSim"
    using step_nonpositive_dt [OF _ g v coin_nonneg, of 0 0]
    by (simp add: runningSim_fields)
  moreover have "fst (step runningSim (- 1 / 20) coin 0) = runningSim\<lparr>time := - 1 / 20\<rparr>"
    using step_nonpositive_dt [OF _ g v coin_nonneg, of "- 1 / 20" 0]
    by (simp add: runningSim_fields)
  ultimately show ?thesis using g v coin_nonneg by simp
qed

text \<open>
  C2, as stated, fails. In case 1 at time \<open>0\<close> the source tests \<open>x < 0.01\<close>, not
  \<open>|x| < 0.01\<close>: at \<open>x = -5\<close> it returns \<open>1\<close>.
\<close>

theorem analyticalAt_early_counterexample:
  "caseNum (fst (newSim coin 0)) = 1 \<and>
   D (fst (newSim coin 0)) * time (fst (newSim coin 0)) < 1 / 10 ^ 9 \<and>
   \<not> \<bar>- 5 :: real\<bar> < 0.01 \<and>
   analyticalAt (fst (newSim coin 0)) (- 5) = 1"
  by (simp add: analyticalAt_def newSim_fields)

text \<open>
  C2, amended. Whenever \<open>D * t < 1e-9\<close>: in case 1 \<open>analyticalAt x\<close> is \<open>1\<close> if
  \<open>x < 0.01\<close> and \<open>0\<close> otherwise, which is the test \<open>|x| < 0.01\<close> for every
  \<open>x > -0.01\<close>, so over the whole domain \<open>x \<ge> 0\<close> of the case; in every other case
  (2 and 3) it is \<open>0\<close> for every \<open>x\<close>.
\<close>

theorem analyticalAt_early:
  assumes "D s * time s < 1 / 10 ^ 9"
  shows "(caseNum s = 1 \<longrightarrow> analyticalAt s x = (if x < 0.01 then 1 else 0)) \<and>
         (caseNum s = 1 \<and> - 0.01 < x \<longrightarrow>
            analyticalAt s x = (if \<bar>x\<bar> < 0.01 then 1 else 0)) \<and>
         (caseNum s \<noteq> 1 \<longrightarrow> analyticalAt s x = 0)"
  using assms by (auto simp add: analyticalAt_def Let_def)

theorem analyticalAt_early_witness:
  "D (fst (newSim coin 0)) * time (fst (newSim coin 0)) < 1 / 10 ^ 9 \<and>
   analyticalAt (fst (newSim coin 0)) 0 = 1 \<and>
   analyticalAt (fst (newSim coin 0)) 3 = 0 \<and>
   analyticalAt ((fst (newSim coin 0))\<lparr>caseNum := 2\<rparr>) 0 = 0 \<and>
   analyticalAt ((fst (newSim coin 0))\<lparr>caseNum := 3\<rparr>) 0 = 0"
proof -
  have h: "D (fst (newSim coin 0)) * time (fst (newSim coin 0)) < 1 / 10 ^ 9"
    by (simp add: newSim_fields)
  have h2: "D ((fst (newSim coin 0))\<lparr>caseNum := 2\<rparr>)
              * time ((fst (newSim coin 0))\<lparr>caseNum := 2\<rparr>) < 1 / 10 ^ 9"
    by (simp add: newSim_fields D_def)
  have h3: "D ((fst (newSim coin 0))\<lparr>caseNum := 3\<rparr>)
              * time ((fst (newSim coin 0))\<lparr>caseNum := 3\<rparr>) < 1 / 10 ^ 9"
    by (simp add: newSim_fields D_def)
  show ?thesis
    using h analyticalAt_early [OF h, of 0] analyticalAt_early [OF h, of 3]
      analyticalAt_early [OF h2, of 0] analyticalAt_early [OF h3, of 0]
    by (simp add: newSim_fields)
qed

text \<open>
  C3, as stated, fails. \<open>setCase 4\<close> on the engine as constructed returns normally
  and the case number goes from \<open>1\<close> to \<open>4\<close>: the method stores \<open>n\<close> unchecked.
\<close>

theorem setCase_counterexample:
  "(4 :: int) \<notin> {1, 2, 3} \<and>
   setCase (fst (newSim coin 0)) 4 coin 0 \<noteq> Inl InvalidCase \<and>
   caseNum (fst (newSim coin 0)) = 1 \<and>
   caseNum (fst (projr (setCase (fst (newSim coin 0)) 4 coin 0))) = 4"
  using setCase_caseNum [of "fst (newSim coin 0)" 4 coin 0]
  by (auto simp add: newSim_fields)

text \<open>
  C3, amended. For every \<open>n\<close>, also outside \<open>{1, 2, 3}\<close>, \<open>setCase n\<close> does not fail:
  it stores \<open>n\<close> as the case number and resets (elapsed time \<open>0\<close>, every active
  particle of the buffer back at \<open>x = 0\<close>); the walk parameters, the particle count,
  the running flag, the speed and the length of the buffer are unchanged.
\<close>

theorem setCase_total:
  "\<exists>s' k'. setCase s n r k = Inr (s', k') \<and> caseNum s' = n \<and> time s' = 0 \<and>
      gamma s' = gamma s \<and> lambda s' = lambda s \<and> numAtoms s' = numAtoms s \<and>
      running s' = running s \<and> speed s' = speed s \<and>
      length (atoms s') = length (atoms s) \<and>
      (\<forall>i < numAtoms s. i * 3 < length (atoms s) \<longrightarrow> atoms s' ! (i * 3) = 0)"
proof -
  obtain a k' where f: "fold (seedAtom r) [0..<numAtoms s] (atoms s, k) = (a, k')"
    by (cases "fold (seedAtom r) [0..<numAtoms s] (atoms s, k)")
  have l: "length a = length (atoms s)"
    using seedLoop_length [of r "[0..<numAtoms s]" "(atoms s, k)"] f by simp
  have z: "\<forall>i < numAtoms s. i * 3 < length (atoms s) \<longrightarrow> a ! (i * 3) = 0"
  proof (intro allI impI)
    fix i assume "i < numAtoms s" "i * 3 < length (atoms s)"
    then show "a ! (i * 3) = 0"
      using seedLoop_x0 [of i "[0..<numAtoms s]" "atoms s" r k] f by simp
  qed
  have "setCase s n r k = Inr (s\<lparr>caseNum := n, time := 0, atoms := a\<rparr>, k')"
    using f by (simp add: setCase_def reset_def)
  with l z show ?thesis by simp
qed

theorem setCase_total_witness:
  "\<exists>s' k'. setCase runningSim 4 coin 0 = Inr (s', k') \<and> caseNum s' = 4 \<and> time s' = 0 \<and>
      running s' \<and> numAtoms s' = 2000 \<and> atoms s' ! 0 = 0"
proof -
  obtain s' k' where e: "setCase runningSim 4 coin 0 = Inr (s', k')"
    and c: "caseNum s' = 4" "time s' = 0" "running s' = running runningSim"
      "numAtoms s' = numAtoms runningSim"
    and z: "\<forall>i < numAtoms runningSim. i * 3 < length (atoms runningSim)
              \<longrightarrow> atoms s' ! (i * 3) = 0"
    using setCase_total [of runningSim 4 coin 0] by blast
  have "0 < numAtoms runningSim" "0 * 3 < length (atoms runningSim)"
    by (simp_all add: runningSim_def newSim_fields MAX_ATOMS_def)
  with z have "atoms s' ! (0 * 3) = 0" by blast
  with e c show ?thesis by (simp add: runningSim_fields)
qed

text \<open>
  C4, as stated, fails. \<open>setNumAtoms 5001\<close> on the engine as constructed returns
  normally and the particle count goes from \<open>2000\<close> to \<open>5001 > MAX_ATOMS\<close>: the
  method stores \<open>n\<close> unchecked.
\<close>

theorem setNumAtoms_counterexample:
  "5001 > MAX_ATOMS \<and>
   setNumAtoms (fst (newSim coin 0)) 5001 coin 0 \<noteq> Inl CapacityExceeded \<and>
   numAtoms (fst (newSim coin 0)) = 2000 \<and>
   numAtoms (fst (projr (setNumAtoms (fst (newSim coin 0)) 5001 coin 0))) = 5001"
  using setNumAtoms_numAtoms [of "fst (newSim coin 0)" 5001 coin 0]
  by (auto simp add: newSim_fields MAX_ATOMS_def)

text \<open>
  C4, amended. For every \<open>n\<close>, also above \<open>MAX_ATOMS\<close>, \<open>setNumAtoms n\<close> does not
  fail and writes nothing outside the buffer: the buffer keeps its length, the
  coordinates of the particles that were active before keep their values, and the
  case, the walk parameters, the elapsed time, the running flag and the speed are
  unchanged.
\<close>

theorem setNumAtoms_total:
  "\<exists>s' k'. setNumAtoms s n r k = Inr (s', k') \<and>
      caseNum s' = caseNum s \<and> gamma s' = gamma s \<and> lambda s' = lambda s \<and>
      time s' = time s \<and> running s' = running s \<and> speed s' = speed s \<and>
      length (atoms s') = length (atoms s) \<and>
      (\<forall>m < numAtoms s * 3. atoms s' ! m = atoms s ! m)"
proof (cases "n > numAtoms s")
  case False
  then show ?thesis by (simp add: setNumAtoms_def)
next
  case True
  obtain a k' where f: "fold (seedAtom r) [numAtoms s..<n] (atoms s, k) = (a, k')"
    by (cases "fold (seedAtom r) [numAtoms s..<n] (atoms s, k)")
  have l: "length a = length (atoms s)"
    using seedLoop_length [of r "[numAtoms s..<n]" "(atoms s, k)"] f by simp
  have z: "\<forall>m < numAtoms s * 3. a ! m = atoms s ! m"
  proof (intro allI impI)
    fix m assume "m < numAtoms s * 3"
    then show "a ! m = atoms s ! m"
      using seedLoop_low [of "[numAtoms s..<n]" "numAtoms s" m r "atoms s" k] f by simp
  qed
  have "setNumAtoms s n r k = Inr (s\<lparr>numAtoms := n, atoms := a\<rparr>, k')"
    using True f by (simp add: setNumAtoms_def)
  with l z show ?thesis by simp
qed

theorem setNumAtoms_total_witness:
  "\<exists>s' k'. setNumAtoms runningSim 5001 coin 0 = Inr (s', k') \<and> time s' = 0 \<and>
      length (atoms s') = MAX_ATOMS * 3 \<and> atoms s' ! 0 = atoms runningSim ! 0"
proof -
  obtain s' k' where e: "setNumAtoms runningSim 5001 coin 0 = Inr (s', k')"
    and c: "time s' = time runningSim" "length (atoms s') = length (atoms runningSim)"
    and z: "\<forall>m < numAtoms runningSim * 3. atoms s' ! m = atoms runningSim ! m"
    using setNumAtoms_total [of runningSim 5001 coin 0] by blast
  have "0 < numAtoms runningSim * 3" by (simp add: runningSim_fields)
  with z have "atoms s' ! 0 = atoms runningSim ! 0" by blast
  with e c show ?thesis by (simp add: runningSim_fields) (simp add: runningSim_def newSim_fields)
qed






text \<open>
  C7. In every state the bin counts of \<open>getHistogram\<close> add up to at most
  \<open>numAtoms\<close>: the sum is the number of active particles whose \<open>x\<close> is in
  \<open>[visibleMin, visibleMax)\<close>, each counted in one bin, the others in none.
\<close>

theorem histogram_total:
  "length (getHistogram s) = NUM_BINS \<and>
   sum_list (getHistogram s) = length (filter (binned s) [0..<numAtoms s]) \<and>
   sum_list (getHistogram s) \<le> numAtoms s"
proof -
  have e: "sum_list (getHistogram s) = length (filter (binned s) [0..<numAtoms s])"
    by (simp add: getHistogram_def binLoop_sum)
  have "length (filter (binned s) [0..<numAtoms s]) \<le> length [0..<numAtoms s]"
    by (rule length_filter_le)
  with e show ?thesis by (simp add: getHistogram_def binLoop_length)
qed

theorem histogram_total_witness:
  "sum_list (getHistogram runningSim) \<le> 2000 \<and> length (getHistogram runningSim) = 40"
  using histogram_total [of runningSim]
  by (simp add: runningSim_fields NUM_BINS_def)

text \<open>
  C8. The diffusion coefficient is \<open>gamma * lambda\<^sup>2 / 6\<close>, for all parameters (so for
  all positive ones). It is a function of the state, not a field of it: after any
  change of the parameters it is the value for the new ones.
\<close>

theorem D_einstein:
  "D s = gamma s * (lambda s)\<^sup>2 / 6 \<and>
   D (s\<lparr>gamma := g, lambda := l\<rparr>) = g * l\<^sup>2 / 6"
  by (simp add: D_def power2_eq_square)

theorem D_einstein_witness:
  "D runningSim = 20 * (1 / 2)\<^sup>2 / 6 \<and> D (runningSim\<lparr>gamma := 6, lambda := 2\<rparr>) = 4"
  using D_einstein [where s = runningSim and g = 6 and l = 2]
  by (simp add: runningSim_fields)

text \<open>
  C9. With \<open>gamma = 0\<close>, \<open>step dt\<close> leaves every particle position unchanged, for every
  \<open>dt\<close> and every random source (its values are \<open>\<ge> 0\<close>, as those of
  \<open>Math.random\<close>): the jump probability is \<open>0\<close> in the one sub-step.
\<close>

theorem step_zero_gamma:
  assumes "gamma s = 0" "\<forall>j. 0 \<le> r j"
  shows "atoms (fst (step s dt r k)) = atoms s"
proof (cases "running s")
  case True
  with assms show ?thesis by (simp add: step_stay)
next
  case False
  then show ?thesis by (simp add: step_def)
qed

theorem step_zero_gamma_witness:
  "gamma (runningSim\<lparr>gamma := 0\<rparr>) = 0 \<and> (\<forall>j. 0 \<le> coin j) \<and>
   atoms (fst (step (runningSim\<lparr>gamma := 0\<rparr>) (1 / 20) coin 0)) = atoms runningSim"
  using step_zero_gamma [of "runningSim\<lparr>gamma := 0\<rparr>" coin "1 / 20" 0] coin_nonneg
  by simp

text \<open>
  C10. While the running flag is false, \<open>step\<close> returns at once: the whole state, and
  the random source, are as before, for every \<open>dt\<close>.
\<close>

theorem step_paused_noop:
  "\<not> running s \<Longrightarrow> step s dt r k = (s, k)"
  by (simp add: step_def)

theorem step_paused_noop_witness:
  "\<not> running (fst (newSim coin 0)) \<and>
   step (fst (newSim coin 0)) (1 / 20) coin 0 = (fst (newSim coin 0), 0)"
  using step_paused_noop [of "fst (newSim coin 0)" "1 / 20" coin 0]
  by (simp add: newSim_fields)

end
